theory Spec2Isabelle
  imports Main "HOL-Library.Multiset" "HOL-Library.AList"
begin

section \<open>Python strings\<close>

text \<open>
  A Python \<open>str\<close> is modelled as a \<open>string\<close>, one \<open>char\<close> per code point. HOL characters
  are the code points U+0000 to U+00FF, so the model covers the Latin-1 range; on that range
  the three character classes below are the ones of \<open>str.isspace\<close>, \<open>str.isalpha\<close> and
  \<open>str.isdigit\<close>.
\<close>

definition isspace :: "char \<Rightarrow> bool" where
  "isspace c = (let n = (of_char c :: nat)
                in (9 \<le> n \<and> n \<le> 13) \<or> (28 \<le> n \<and> n \<le> 32) \<or> n = 133 \<or> n = 160)"

definition isalpha :: "char \<Rightarrow> bool" where
  "isalpha c = (let n = (of_char c :: nat)
                in (65 \<le> n \<and> n \<le> 90) \<or> (97 \<le> n \<and> n \<le> 122) \<or> n = 170 \<or> n = 181 \<or> n = 186
                   \<or> (192 \<le> n \<and> n \<le> 214) \<or> (216 \<le> n \<and> n \<le> 246) \<or> (248 \<le> n \<and> n \<le> 255))"

definition isdigit :: "char \<Rightarrow> bool" where
  "isdigit c = (let n = (of_char c :: nat)
                in (48 \<le> n \<and> n \<le> 57) \<or> n = 178 \<or> n = 179 \<or> n = 185)"

text \<open>\<open>s.strip()\<close>: leading and trailing whitespace removed.\<close>

definition lstrip :: "string \<Rightarrow> string" where
  "lstrip s = dropWhile isspace s"

definition rstrip :: "string \<Rightarrow> string" where
  "rstrip s = rev (dropWhile isspace (rev s))"

definition strip :: "string \<Rightarrow> string" where
  "strip s = rstrip (lstrip s)"

text \<open>\<open>s.lower()\<close> on the Latin-1 range.\<close>

definition lower_char :: "char \<Rightarrow> char" where
  "lower_char c = (let n = (of_char c :: nat)
                   in if (65 \<le> n \<and> n \<le> 90) \<or> (192 \<le> n \<and> n \<le> 214) \<or> (216 \<le> n \<and> n \<le> 222)
                      then char_of (n + 32) else c)"

definition lower :: "string \<Rightarrow> string" where
  "lower s = map lower_char s"

text \<open>\<open>sub in s\<close> for strings: \<open>sub\<close> occurs as a contiguous substring of \<open>s\<close>.\<close>

fun startswith :: "string \<Rightarrow> string \<Rightarrow> bool" where
  "startswith s [] = True"
| "startswith [] (p # ps) = False"
| "startswith (x # xs) (p # ps) = (x = p \<and> startswith xs ps)"

fun substring_in :: "string \<Rightarrow> string \<Rightarrow> bool" where
  "substring_in sub [] = (sub = [])"
| "substring_in sub (x # xs) = (startswith (x # xs) sub \<or> substring_in sub xs)"

text \<open>
  \<open>s.split(c)\<close> for a one-character separator: every occurrence of \<open>c\<close> ends a part, so
  the result has one part more than there are separators. \<open>s.split(c, n)\<close> stops
  after \<open>n\<close> separators and leaves the rest of the string in the last part.
\<close>

fun split :: "char \<Rightarrow> string \<Rightarrow> string list" where
  "split c [] = [[]]"
| "split c (x # xs) =
     (if x = c then [] # split c xs
      else (case split c xs of [] \<Rightarrow> [[x]] | p # ps \<Rightarrow> (x # p) # ps))"

fun split_max :: "char \<Rightarrow> nat \<Rightarrow> string \<Rightarrow> string list" where
  "split_max c 0 s = [s]"
| "split_max c (Suc n) [] = [[]]"
| "split_max c (Suc n) (x # xs) =
     (if x = c then [] # split_max c n xs
      else (case split_max c (Suc n) xs of [] \<Rightarrow> [[x]] | p # ps \<Rightarrow> (x # p) # ps))"


text \<open>
  Iterating over a file opened in text mode: the content is cut at line ends, and universal
  newlines make \<open>\\n\<close>, \<open>\\r\<close> and \<open>\\r\\n\<close> all line ends. The line terminators are left out
  here; every reader in the program strips each line and drops the blank ones, which is
  \<open>read_entries\<close> (\<open>[line.strip() for line in f if line.strip()]\<close>).
\<close>

fun file_lines :: "string \<Rightarrow> string list" where
  "file_lines [] = [[]]"
| "file_lines (x # xs) =
     (if x = CHR 0x0A \<or> x = CHR 0x0D then [] # file_lines xs
      else (case file_lines xs of [] \<Rightarrow> [[x]] | p # ps \<Rightarrow> (x # p) # ps))"

definition read_entries :: "string \<Rightarrow> string list" where
  "read_entries content = map strip (filter (\<lambda>line. strip line \<noteq> []) (file_lines content))"

text \<open>
  Exceptions that leave a function, and \<open>sys.exit(1)\<close>. \<open>OSError\<close> stands for whichever of
  its subclasses \<open>os.makedirs\<close> raises (FileNotFoundError, NotADirectoryError,
  FileExistsError, PermissionError).
\<close>

datatype exn = IndexError | ValueError | EOFError | IsADirectoryError | OSError | SystemExit nat

text \<open>\<open>xs[i]\<close> for a literal index \<open>i \<ge> 0\<close>.\<close>

definition index :: "'a list \<Rightarrow> nat \<Rightarrow> exn + 'a" where
  "index xs i = (if i < length xs then Inr (xs ! i) else Inl IndexError)"

text \<open>\<open>os.path.join(a, b)\<close> on POSIX.\<close>

definition path_join :: "string \<Rightarrow> string \<Rightarrow> string" where
  "path_join a b =
     (if startswith b ''/'' then b
      else if a = [] \<or> last a = CHR ''/'' then a @ b
      else a @ ''/'' @ b)"

text \<open>A string with no whitespace at either end.\<close>

definition no_outer_space :: "string \<Rightarrow> bool" where
  "no_outer_space s = (s = [] \<or> (\<not> isspace (hd s) \<and> \<not> isspace (last s)))"

section \<open>The environment\<close>

text \<open>
  The state the program works on: whether \<open>import yt_dlp\<close> succeeds, whether
  \<open>ffmpeg -version\<close> runs, the lines still to be read from standard input, the file system
  (a path is a directory or a text or audio file with its content; \<open>files e p\<close> is what the
  system finds under the path string \<open>p\<close>, and nothing is found under the empty path), the
  directories that the system refuses to
  create for a reason the file map does not show (permissions, a read-only medium), the URLs
  handed to \<open>ydl.download\<close> so far, and what \<open>download_track\<close> printed about the track it
  was given. Progress counters, banners and the hints about missing tools are not recorded.
\<close>

datatype node = Dir | File string

datatype event =
    Skip string
  | Downloading string
  | Done
  | Error string

record env =
  yt_dlp_installed :: bool
  ffmpeg_found :: bool
  stdin :: "string list"
  files :: "string \<rightharpoonup> node"
  mkdir_denied :: "string \<Rightarrow> bool"
  requests :: "string list"
  stdout :: "event list"

definition path_exists :: "env \<Rightarrow> string \<Rightarrow> bool" where
  "path_exists e p = (files e p \<noteq> None)"

definition print :: "event \<Rightarrow> env \<Rightarrow> env" where
  "print ev e = e\<lparr>stdout := stdout e @ [ev]\<rparr>"

text \<open>
  \<open>os.makedirs(name)\<close>. The directories above \<open>name\<close> are the parts of the path before each
  of its separators. The call raises when the path is empty, when it exists already, when a
  directory above it is a regular file, or when the system refuses; otherwise it creates the
  missing directories above \<open>name\<close> and \<open>name\<close> itself.
\<close>

definition ancestors :: "string \<Rightarrow> string list" where
  "ancestors p = map (\<lambda>i. take i p) (filter (\<lambda>i. p ! i = CHR ''/'') [1..<length p])"

definition is_file :: "env \<Rightarrow> string \<Rightarrow> bool" where
  "is_file e p = (case files e p of Some (File c) \<Rightarrow> True | Some Dir \<Rightarrow> False | None \<Rightarrow> False)"

definition makedirs_fails :: "env \<Rightarrow> string \<Rightarrow> bool" where
  "makedirs_fails e name =
     (name = [] \<or> path_exists e name \<or> list_ex (is_file e) (ancestors name)
      \<or> mkdir_denied e name)"

fun create_missing :: "string list \<Rightarrow> (string \<rightharpoonup> node) \<Rightarrow> (string \<rightharpoonup> node)" where
  "create_missing [] f = f"
| "create_missing (a # as) f = create_missing as (if f a = None then f(a \<mapsto> Dir) else f)"

definition makedirs :: "string \<Rightarrow> env \<Rightarrow> exn + env" where
  "makedirs name e =
     (if makedirs_fails e name then Inl OSError
      else Inr (e\<lparr>files := (create_missing (ancestors name) (files e))(name \<mapsto> Dir)\<rparr>))"

section \<open>Acquirer: download_track\<close>

text \<open>
  main.py, lines 236 to 238: \<open>parts = line.split("|", 1)\<close>, then \<open>parts[0].strip()\<close> and
  \<open>parts[1].strip()\<close>.
\<close>

definition parse_entry :: "string \<Rightarrow> exn + (string \<times> string)" where
  "parse_entry line =
     (let parts = split_max CHR ''|'' 1 line in
      case index parts 0 of
        Inl e \<Rightarrow> Inl e
      | Inr p0 \<Rightarrow>
          (case index parts 1 of
             Inl e \<Rightarrow> Inl e
           | Inr p1 \<Rightarrow> Inr (strip p0, strip p1)))"

text \<open>Lines 241 and 242: the characters kept in a file name, and the file name.\<close>

definition keep_char :: "char \<Rightarrow> bool" where
  "keep_char c = (isalpha c \<or> isdigit c
                  \<or> c \<in> set [CHR '' '', CHR ''-'', CHR ''_'', CHR ''.'', CHR ''('', CHR '')''])"

definition safe_name :: "string \<Rightarrow> string" where
  "safe_name song_name = take 150 (strip (filter keep_char song_name))"

text \<open>
  \<open>ydl.download([url])\<close> is the parameter \<open>fetch\<close>: given how many downloads were requested
  before and the URL, it raises with a message (\<open>Inl\<close>) or produces the audio (\<open>Inr\<close>), which
  the post-processor leaves in \<open>output_path.mp3\<close>.
\<close>

type_synonym fetcher = "nat \<Rightarrow> string \<Rightarrow> string + string"

definition download_track :: "fetcher \<Rightarrow> string \<Rightarrow> string \<Rightarrow> env \<Rightarrow> (exn + bool) \<times> env" where
  "download_track fetch line output_folder e =
     (if \<not> yt_dlp_installed e then (Inr False, e)
      else if CHR ''|'' \<notin> set line then (Inr False, e)
      else
        (case parse_entry line of
           Inl x \<Rightarrow> (Inl x, e)
         | Inr (song_name, url) \<Rightarrow>
             (let safe = safe_name song_name;
                  output_path = path_join output_folder safe
              in if path_exists e (output_path @ ''.mp3'')
                 then (Inr True, print (Skip safe) e)
                 else
                   (let e1 = (print (Downloading safe) e)\<lparr>requests := requests e @ [url]\<rparr>
                    in case fetch (length (requests e)) url of
                         Inr audio \<Rightarrow>
                           (Inr True,
                            print Done (e1\<lparr>files := (files e1)(output_path @ ''.mp3'' \<mapsto> File audio)\<rparr>))
                       | Inl msg \<Rightarrow> (Inr False, print (Error (take 80 msg)) e1)))))"

text \<open>
  The copy of download\_songs.py appended to main.py (lines 416 to 459): no import guard,
  \<open>line.split("|")\<close> without a limit, no cut at 150 characters, the folder fixed to
  \<open>songs\<close>, and the error text printed in full.
\<close>

definition parse_entry_standalone :: "string \<Rightarrow> exn + (string \<times> string)" where
  "parse_entry_standalone line =
     (let parts = split CHR ''|'' line in
      case index parts 0 of
        Inl e \<Rightarrow> Inl e
      | Inr p0 \<Rightarrow>
          (case index parts 1 of
             Inl e \<Rightarrow> Inl e
           | Inr p1 \<Rightarrow> Inr (strip p0, strip p1)))"

definition safe_name_standalone :: "string \<Rightarrow> string" where
  "safe_name_standalone song_name = strip (filter keep_char song_name)"

definition OUTPUT_FOLDER :: string where
  "OUTPUT_FOLDER = ''songs''"

definition download_track_standalone :: "fetcher \<Rightarrow> string \<Rightarrow> env \<Rightarrow> (exn + bool) \<times> env" where
  "download_track_standalone fetch line e =
     (if CHR ''|'' \<notin> set line then (Inr False, e)
      else
        (case parse_entry_standalone line of
           Inl x \<Rightarrow> (Inl x, e)
         | Inr (song_name, url) \<Rightarrow>
             (let safe = safe_name_standalone song_name;
                  output_path = path_join OUTPUT_FOLDER safe
              in if path_exists e (output_path @ ''.mp3'')
                 then (Inr True, print (Skip safe) e)
                 else
                   (let e1 = (print (Downloading safe) e)\<lparr>requests := requests e @ [url]\<rparr>
                    in case fetch (length (requests e)) url of
                         Inr audio \<Rightarrow>
                           (Inr True,
                            print Done (e1\<lparr>files := (files e1)(output_path @ ''.mp3'' \<mapsto> File audio)\<rparr>))
                       | Inl msg \<Rightarrow> (Inr False, print (Error msg) e1)))))"

section \<open>Acquisition coordinator: download_songs\<close>

text \<open>
  Lines 309 to 313: the entries one after the other, in the order of the file; an exception
  leaving \<open>download_track\<close> would leave the loop too.
\<close>

fun download_loop :: "fetcher \<Rightarrow> string list \<Rightarrow> string \<Rightarrow> nat \<Rightarrow> env \<Rightarrow> (exn + nat) \<times> env" where
  "download_loop fetch [] output_folder success_count e = (Inr success_count, e)"
| "download_loop fetch (line # lines) output_folder success_count e =
     (case download_track fetch line output_folder e of
        (Inl x, e') \<Rightarrow> (Inl x, e')
      | (Inr ok, e') \<Rightarrow>
          download_loop fetch lines output_folder
            (if ok then success_count + 1 else success_count) e')"

text \<open>
  Lines 294 to 316, after the two checks of the tools: the input file must exist, the output
  folder is created when it is missing (an exception of \<open>os.makedirs\<close> is not handled and
  ends the run before any line is read), the entries are read, and the loop runs. The result
  is the pair \<open>(success_count, total)\<close> of the closing message.
\<close>

definition download_entries :: "fetcher \<Rightarrow> string \<Rightarrow> string \<Rightarrow> env \<Rightarrow> (exn + nat \<times> nat) \<times> env" where
  "download_entries fetch input_file output_folder e =
     (if \<not> path_exists e input_file then (Inl (SystemExit 1), e)
      else
        (case (if \<not> path_exists e output_folder then makedirs output_folder e else Inr e) of
           Inl x \<Rightarrow> (Inl x, e)
         | Inr e1 \<Rightarrow>
             (case files e1 input_file of
                None \<Rightarrow> (Inl (SystemExit 1), e1)
              | Some Dir \<Rightarrow> (Inl IsADirectoryError, e1)
              | Some (File content) \<Rightarrow>
                  (let lines = read_entries content;
                       total = length lines
                   in case download_loop fetch lines output_folder 0 e1 of
                        (Inl x, e2) \<Rightarrow> (Inl x, e2)
                      | (Inr success_count, e2) \<Rightarrow> (Inr (success_count, total), e2)))))"

text \<open>
  Lines 273 to 292: without yt\_dlp the program exits; without ffmpeg it asks
  \<open>Continue anyway? (y/n)\<close> and exits unless the answer, stripped and lowered, is \<open>y\<close>.
\<close>

definition download_songs :: "fetcher \<Rightarrow> string \<Rightarrow> string \<Rightarrow> env \<Rightarrow> (exn + nat \<times> nat) \<times> env" where
  "download_songs fetch input_file output_folder e =
     (if \<not> yt_dlp_installed e then (Inl (SystemExit 1), e)
      else if ffmpeg_found e then download_entries fetch input_file output_folder e
      else
        (case stdin e of
           [] \<Rightarrow> (Inl EOFError, e)
         | answer # rest \<Rightarrow>
             (let e1 = e\<lparr>stdin := rest\<rparr>;
                  cont = lower (strip answer)
              in if cont \<noteq> ''y'' then (Inl (SystemExit 1), e1)
                 else download_entries fetch input_file output_folder e1)))"

text \<open>
  The two checks of the tools let the run go on: yt\_dlp can be imported, and ffmpeg is there
  or the user answers \<open>y\<close>.
\<close>

definition tools_ready :: "env \<Rightarrow> bool" where
  "tools_ready e =
     (yt_dlp_installed e
      \<and> (ffmpeg_found e
           \<or> (case stdin e of [] \<Rightarrow> False | answer # rest \<Rightarrow> lower (strip answer) = ''y'')))"

text \<open>The output folder is there, or \<open>os.makedirs\<close> can create it.\<close>

definition folder_ready :: "env \<Rightarrow> string \<Rightarrow> bool" where
  "folder_ready e output_folder =
     (path_exists e output_folder \<or> \<not> makedirs_fails e output_folder)"

text \<open>
  A manifest line whose track is already in the output folder: the line parses, and the
  file named after the sanitized song name, with the extension \<open>.mp3\<close>, exists.
\<close>

definition already_downloaded :: "env \<Rightarrow> string \<Rightarrow> string \<Rightarrow> bool" where
  "already_downloaded e output_folder line =
     (case parse_entry line of
        Inl x \<Rightarrow> False
      | Inr (song_name, url) \<Rightarrow>
          path_exists e (path_join output_folder (safe_name song_name) @ ''.mp3''))"

section \<open>Resolver: find_url\<close>

text \<open>
  What \<open>ydl.extract_info(song_name, download=False)\<close> does on one attempt: it raises an
  exception with a text, or returns an \<open>info\<close> dictionary, which has a list under the key
  \<open>entries\<close> or is itself the video. Of a video only the keys \<open>webpage_url\<close>, \<open>url\<close> and
  \<open>title\<close> are read; \<open>None\<close> stands for a missing key.
\<close>

record video =
  v_webpage_url :: "string option"
  v_url :: "string option"
  v_title :: "string option"

datatype info = Entries "video list" | Single video

datatype response = Raise string | Info info

text \<open>The dictionary that \<open>find_url\<close> returns, by its key \<open>found\<close>.\<close>

datatype result =
    found: Found (song: string) (found_url: string) (found_title: string)
  | NotFound (song: string) (error: string)

text \<open>What one call does besides returning: the two kinds of sleep and the search.\<close>

datatype effect = Jitter | Search string | Cooldown nat

text \<open>Truth value of an optional string, and \<open>a or b\<close>.\<close>

definition truthy :: "string option \<Rightarrow> bool" where
  "truthy a = (case a of None \<Rightarrow> False | Some s \<Rightarrow> s \<noteq> [])"

definition py_or :: "string option \<Rightarrow> string option \<Rightarrow> string option" where
  "py_or a b = (if truthy a then a else b)"

text \<open>
  The body of the \<open>try\<close> (lines 147 to 161) on one response: \<open>Inl\<close> is the text of the
  exception that reaches the handler, \<open>Inr\<close> the dictionary returned. \<open>info['entries'][0]\<close> on
  an empty list raises IndexError, whose text is \<open>list index out of range\<close>.
\<close>

definition try_body :: "response \<Rightarrow> string \<Rightarrow> string + result" where
  "try_body resp song_name =
     (case resp of
        Raise msg \<Rightarrow> Inl msg
      | Info info \<Rightarrow>
          (case (case info of Entries es \<Rightarrow> index es 0 | Single v \<Rightarrow> Inr v) of
             Inl x \<Rightarrow> Inl ''list index out of range''
           | Inr video \<Rightarrow>
               (let u = py_or (v_webpage_url video) (v_url video);
                    t = (case v_title video of None \<Rightarrow> ''Unknown Title'' | Some t \<Rightarrow> t)
                in case u of
                     Some s \<Rightarrow>
                       if s \<noteq> [] then Inr (Found song_name s t)
                       else Inr (NotFound song_name ''No results found'')
                   | None \<Rightarrow> Inr (NotFound song_name ''No results found''))))"

text \<open>
  The loop \<open>for attempt in range(3)\<close> over the attempts still to make; \<open>provider attempt\<close> is
  the response to the search of that attempt.
\<close>

fun attempts :: "(nat \<Rightarrow> response) \<Rightarrow> string \<Rightarrow> nat list \<Rightarrow> effect list \<Rightarrow> result \<times> effect list" where
  "attempts provider song_name [] tr = (NotFound song_name ''Max retries exceeded'', tr)"
| "attempts provider song_name (attempt # rest) tr =
     (let tr1 = tr @ [Jitter, Search song_name]
      in case try_body (provider attempt) song_name of
           Inr r \<Rightarrow> (r, tr1)
         | Inl error_msg \<Rightarrow>
             if substring_in ''429'' error_msg then
               (let tr2 = tr1 @ [Cooldown 20]
                in if attempt = 2 then (NotFound song_name error_msg, tr2)
                   else attempts provider song_name rest tr2)
             else if substring_in ''Sign in'' error_msg then
               (NotFound song_name ''Age restricted/Login required'', tr1)
             else if attempt = 2 then (NotFound song_name error_msg, tr1)
             else attempts provider song_name rest tr1)"

text \<open>search\_youtube\_urls.py, lines 11 to 60.\<close>

definition find_url_standalone :: "(nat \<Rightarrow> response) \<Rightarrow> string \<Rightarrow> result \<times> effect list" where
  "find_url_standalone provider song_name = attempts provider song_name [0..<3] []"

text \<open>main.py, lines 125 to 174: the same loop behind the import guard.\<close>

definition find_url :: "bool \<Rightarrow> (nat \<Rightarrow> response) \<Rightarrow> string \<Rightarrow> result \<times> effect list" where
  "find_url installed provider song_name =
     (if \<not> installed
      then (NotFound song_name ''yt-dlp not installed. Run: pip install yt-dlp'', [])
      else attempts provider song_name [0..<3] [])"

section \<open>Resolution coordinator: search_youtube\<close>

text \<open>
  The thread pool. A future is known by the number of its submission and carries what its
  call of \<open>find_url\<close> returns; the executor records the arguments submitted, in order.
  \<open>provider n\<close> answers the searches of the \<open>n\<close>-th submission.
\<close>

datatype future = Future (fid: nat) (future_result: result)

record executor =
  submitted :: "string list"

definition submit :: "bool \<Rightarrow> (nat \<Rightarrow> nat \<Rightarrow> response) \<Rightarrow> string \<Rightarrow> executor \<Rightarrow> future \<times> executor" where
  "submit installed provider song_name ex =
     (let n = length (submitted ex)
      in (Future n (fst (find_url installed (provider n) song_name)),
          ex\<lparr>submitted := submitted ex @ [song_name]\<rparr>))"

text \<open>
  Line 199, \<open>{executor.submit(find_url, song): song for song in songs}\<close>: the dictionary is an
  association list in insertion order, and a key that is already there has its value
  replaced.
\<close>

fun submit_all ::
  "bool \<Rightarrow> (nat \<Rightarrow> nat \<Rightarrow> response) \<Rightarrow> string list \<Rightarrow> executor \<times> (future \<times> string) list
     \<Rightarrow> executor \<times> (future \<times> string) list" where
  "submit_all installed provider [] st = st"
| "submit_all installed provider (s # songs) (ex, future_to_song) =
     (case submit installed provider s ex of
        (fut, ex') \<Rightarrow>
          submit_all installed provider songs (ex', AList.update fut s future_to_song))"


text \<open>Line 206: the line of the found file, \<open>f"{result['song']} | {result['url']}"\<close>.\<close>

definition found_line :: "string \<Rightarrow> string \<Rightarrow> string" where
  "found_line s u = s @ '' | '' @ u"






section \<open>Example inputs\<close>

text \<open>A provider that is rate-limited on the first attempt and answers the second.\<close>

definition provider_rate_limited_once :: "nat \<Rightarrow> response" where
  "provider_rate_limited_once attempt =
     (if attempt = 0 then Raise ''HTTP Error 429: Too Many Requests''
      else Info (Entries [\<lparr>v_webpage_url = Some ''https://x/a'', v_url = None,
                           v_title = Some ''A''\<rparr>]))"

text \<open>A provider that drops the first connection and then asks for a login.\<close>

definition provider_login_required :: "nat \<Rightarrow> response" where
  "provider_login_required attempt =
     (if attempt = 0 then Raise ''Connection reset by peer''
      else Raise ''Sign in to confirm your age'')"

text \<open>A provider with no hit for any search.\<close>

definition provider_no_hits :: "nat \<Rightarrow> nat \<Rightarrow> response" where
  "provider_no_hits n attempt = Info (Entries [])"

text \<open>
  A machine on which the track of the found file has been downloaded before, and a network
  that is down.
\<close>

definition env_downloaded :: env where
  "env_downloaded =
     \<lparr>yt_dlp_installed = True, ffmpeg_found = True, stdin = [],
      files = [''found_songs.txt'' \<mapsto> File ''Song A - Artist X | https://x/a'',
               ''songs'' \<mapsto> Dir,
               ''songs/Song A - Artist X.mp3'' \<mapsto> File ''audio''],
      mkdir_denied = (\<lambda>p. False), requests = [], stdout = []\<rparr>"

definition fetch_offline :: fetcher where
  "fetch_offline n url = Inl ''Network is unreachable''"

text \<open>
  A found file with a line that has no separator between two entries, no output folder
  yet, and a network that delivers every URL.
\<close>

definition env_malformed :: env where
  "env_malformed =
     \<lparr>yt_dlp_installed = True, ffmpeg_found = True, stdin = [],
      files = [''found_songs.txt'' \<mapsto>
                 File (''Song A | https://x/a'' @ [CHR 0x0A] @ ''Song B https://x/b''
                       @ [CHR 0x0A] @ ''Song C | https://x/c'')],
      mkdir_denied = (\<lambda>p. False), requests = [], stdout = []\<rparr>"

definition fetch_online :: fetcher where
  "fetch_online n url = Inr (''audio of '' @ url)"




section \<open>Properties of the string operations\<close>

lemma isspace_blank: "isspace CHR '' ''"
  by (simp add: isspace_def)

lemma bar_not_space: "\<not> isspace CHR ''|''"
  by (simp add: isspace_def)

lemma lstrip_id: "s = [] \<or> \<not> isspace (hd s) \<Longrightarrow> lstrip s = s"
  by (cases s) (auto simp: lstrip_def)

lemma rstrip_id: "s = [] \<or> \<not> isspace (last s) \<Longrightarrow> rstrip s = s"
  by (cases s rule: rev_cases) (auto simp: rstrip_def)

lemma rstrip_snoc_space: "isspace x \<Longrightarrow> rstrip (s @ [x]) = rstrip s"
  by (simp add: rstrip_def)

lemma lstrip_Cons_space: "isspace x \<Longrightarrow> lstrip (x # s) = lstrip s"
  by (simp add: lstrip_def)

lemma strip_id: "no_outer_space s \<Longrightarrow> strip s = s"
  by (auto simp: strip_def no_outer_space_def lstrip_id rstrip_id)

lemma lstrip_head: "lstrip s = [] \<or> \<not> isspace (hd (lstrip s))"
  unfolding lstrip_def by (metis hd_dropWhile)

lemma rstrip_last: "rstrip s = [] \<or> \<not> isspace (last (rstrip s))"
proof (cases "dropWhile isspace (rev s)")
  case Nil
  then show ?thesis by (simp add: rstrip_def)
next
  case (Cons a as)
  then have "\<not> isspace a" by (metis hd_dropWhile list.sel(1) list.distinct(1))
  with Cons show ?thesis by (simp add: rstrip_def)
qed

lemma rstrip_head: "s = [] \<or> \<not> isspace (hd s) \<Longrightarrow> rstrip s = [] \<or> \<not> isspace (hd (rstrip s))"
proof (cases s)
  case Nil
  then show ?thesis by (simp add: rstrip_def)
next
  case (Cons a as)
  assume "s = [] \<or> \<not> isspace (hd s)"
  with Cons have a: "\<not> isspace a" by simp
  have "rstrip (a # as) = a # rstrip as"
    using a by (simp add: rstrip_def dropWhile_append)
  with Cons a show ?thesis by simp
qed

lemma strip_no_outer_space: "no_outer_space (strip s)"
  unfolding no_outer_space_def strip_def
  using rstrip_head [OF lstrip_head] rstrip_last by blast

lemma set_lstrip: "set (lstrip s) \<subseteq> set s"
  unfolding lstrip_def by (rule set_dropWhileD [THEN subsetI])

lemma set_rstrip: "set (rstrip s) \<subseteq> set s"
  unfolding rstrip_def using set_dropWhileD [of _ isspace "rev s"] by auto

lemma set_strip: "set (strip s) \<subseteq> set s"
  unfolding strip_def using set_lstrip set_rstrip by blast

lemma mem_dropWhile: "x \<in> set s \<Longrightarrow> \<not> P x \<Longrightarrow> x \<in> set (dropWhile P s)"
  by (induction s) auto

lemma mem_strip: "x \<in> set s \<Longrightarrow> \<not> isspace x \<Longrightarrow> x \<in> set (strip s)"
  by (simp add: strip_def rstrip_def lstrip_def mem_dropWhile)

section \<open>Splitting and parsing a manifest line\<close>

lemma split_max_notin: "c \<notin> set a \<Longrightarrow> split_max c n a = [a]"
  by (induction a) (cases n; auto)+

lemma split_max_first: "c \<notin> set a \<Longrightarrow> split_max c (Suc 0) (a @ c # b) = [a, b]"
  by (induction a) auto

lemma split_notin: "c \<notin> set a \<Longrightarrow> split c a = [a]"
  by (induction a) auto

lemma split_first: "c \<notin> set a \<Longrightarrow> split c (a @ c # b) = a # split c b"
  by (induction a) auto

lemma split_nonempty: "split c s \<noteq> []"
  by (induction s) (auto split: list.splits)

lemma parse_entry_first:
  "c = CHR ''|'' \<Longrightarrow> c \<notin> set a \<Longrightarrow> parse_entry (a @ c # b) = Inr (strip a, strip b)"
  by (simp add: parse_entry_def split_max_first index_def)

lemma parse_entry_none: "CHR ''|'' \<notin> set line \<Longrightarrow> parse_entry line = Inl IndexError"
  by (simp add: parse_entry_def split_max_notin index_def)

lemma parse_entry_standalone_none:
  "CHR ''|'' \<notin> set line \<Longrightarrow> parse_entry_standalone line = Inl IndexError"
  by (simp add: parse_entry_standalone_def split_notin index_def)

lemma parse_entry_standalone_first:
  assumes "c = CHR ''|''" "c \<notin> set a"
  shows "parse_entry_standalone (a @ c # b) = Inr (strip a, strip (hd (split c b)))"
proof -
  obtain p ps where "split c b = p # ps"
    using split_nonempty by (cases "split c b") auto
  then show ?thesis using assms
    by (simp add: parse_entry_standalone_def split_first index_def)
qed

lemma parse_entry_some:
  "CHR ''|'' \<in> set line \<Longrightarrow> \<exists>n u. parse_entry line = Inr (n, u)"
  by (metis parse_entry_first split_list_first)

text \<open>
  Claim C10. A song name without \<open>|\<close> and without whitespace at its ends, and a URL without
  whitespace at its ends, written to the found file as \<open>name | url\<close> (line 206) and parsed
  by \<open>download_track\<close> (lines 236 to 238: split at the first \<open>|\<close>, both parts stripped), give
  back exactly the pair of the name and the URL.
\<close>

theorem manifest_roundtrip:
  assumes "CHR ''|'' \<notin> set song_name" and "no_outer_space song_name" and "no_outer_space url"
  shows "parse_entry (found_line song_name url) = Inr (song_name, url)"
proof -
  have a: "CHR ''|'' \<notin> set (song_name @ '' '')"
    using assms(1) by simp
  have "found_line song_name url = (song_name @ '' '') @ CHR ''|'' # ('' '' @ url)"
    by (simp add: found_line_def)
  then have "parse_entry (found_line song_name url)
             = Inr (strip (song_name @ '' ''), strip ('' '' @ url))"
    using parse_entry_first [OF refl a] by simp
  moreover have "strip (song_name @ '' '') = song_name"
  proof -
    have "lstrip (song_name @ '' '') = lstrip song_name @ '' '' \<or> song_name = []"
      using assms(2) by (cases song_name) (auto simp: lstrip_def no_outer_space_def)
    then show ?thesis
      using assms(2) strip_id [OF assms(2)] isspace_blank
      by (auto simp: strip_def rstrip_snoc_space lstrip_def rstrip_def)
  qed
  moreover have "strip ('' '' @ url) = url"
    using strip_id [OF assms(3)] isspace_blank by (simp add: strip_def lstrip_def)
  ultimately show ?thesis by simp
qed

text \<open>The entry of the end-to-end scenario of the specification.\<close>

theorem manifest_roundtrip_witness:
  "parse_entry (found_line ''Song A - Artist X'' ''https://x/a'') = Inr (''Song A - Artist X'', ''https://x/a'')"
  using manifest_roundtrip [of "''Song A - Artist X''" "''https://x/a''"]
  by (simp add: no_outer_space_def isspace_def)

section \<open>File names\<close>

lemma filter_safe_name: "filter keep_char (safe_name s) = safe_name s"
proof -
  have "set (safe_name s) \<subseteq> set (filter keep_char s)"
    unfolding safe_name_def using set_take_subset set_strip by fast
  then show ?thesis by (auto intro: filter_True)
qed

lemma safe_name_head: "safe_name s = [] \<or> \<not> isspace (hd (safe_name s))"
proof -
  let ?u = "strip (filter keep_char s)"
  have "?u = [] \<or> \<not> isspace (hd ?u)"
    using strip_no_outer_space [of "filter keep_char s"] by (auto simp: no_outer_space_def)
  then show ?thesis
    by (cases ?u) (auto simp: safe_name_def)
qed

lemma length_rstrip: "length (rstrip s) \<le> length s"
  unfolding rstrip_def using length_dropWhile_le [of isspace "rev s"] by simp

lemma length_safe_name: "length (safe_name s) \<le> 150"
  by (simp add: safe_name_def)

lemma safe_name_twice: "safe_name (safe_name s) = rstrip (safe_name s)"
proof -
  have "safe_name (safe_name s) = take 150 (rstrip (lstrip (safe_name s)))"
    by (simp add: safe_name_def [of "safe_name s"] filter_safe_name strip_def)
  also have "\<dots> = take 150 (rstrip (safe_name s))"
    by (simp add: lstrip_id [OF safe_name_head])
  also have "\<dots> = rstrip (safe_name s)"
    using length_rstrip [of "safe_name s"] length_safe_name [of s] by simp
  finally show ?thesis .
qed

text \<open>
  Claim C5, as the code has it. Sanitizing an already sanitized name gives the same name
  exactly when the sanitized name does not end in whitespace. The filter and the strip come
  before the cut at 150 characters, so the cut can leave a space at the end, which a second
  sanitization strips (\<open>safe_name_twice\<close>).
\<close>

theorem safe_name_idempotent_iff:
  "safe_name (safe_name s) = safe_name s
   \<longleftrightarrow> (safe_name s = [] \<or> \<not> isspace (last (safe_name s)))"
  using rstrip_last [of "safe_name s"] rstrip_id [of "safe_name s"]
  by (auto simp: safe_name_twice)

theorem safe_name_idempotent_iff_witness:
  "safe_name (safe_name ''  AC/DC: Back in Black?  '') = safe_name ''  AC/DC: Back in Black?  ''
   \<and> safe_name ''  AC/DC: Back in Black?  '' = ''ACDC Back in Black''"
proof -
  have v: "safe_name ''  AC/DC: Back in Black?  '' = ''ACDC Back in Black''"
    by code_simp
  have "\<not> isspace (last ''ACDC Back in Black'')"
    by code_simp
  with v show ?thesis
    using safe_name_idempotent_iff [of "''  AC/DC: Back in Black?  ''"] by simp
qed

text \<open>
  Claim C5, as stated, fails: of 149 letters, a space and one more letter the first
  sanitization keeps the letters and the space, the second only the letters.
\<close>

theorem safe_name_not_idempotent:
  "safe_name (safe_name (replicate 149 CHR ''a'' @ '' b''))
   \<noteq> safe_name (replicate 149 CHR ''a'' @ '' b'')"
  by code_simp

lemma count_list_0: "count_list xs c = 0 \<longleftrightarrow> c \<notin> set xs"
  by (induction xs) auto

text \<open>
  Claim C9, as the code has it. The two versions of \<open>download_track\<close> parse a line to the
  same name and URL exactly when the line has at most one \<open>|\<close>, and they derive the same
  file name from a song name exactly when the stripped kept characters are at most 150.
\<close>

theorem parse_entry_versions:
  "(parse_entry line = parse_entry_standalone line \<longleftrightarrow> count_list line CHR ''|'' \<le> 1)
   \<and> (safe_name song_name = safe_name_standalone song_name
        \<longleftrightarrow> length (safe_name_standalone song_name) \<le> 150)"
proof
  let ?c = "CHR ''|''"
  show "parse_entry line = parse_entry_standalone line \<longleftrightarrow> count_list line ?c \<le> 1"
  proof (cases "?c \<in> set line")
    case False
    then show ?thesis
      by (simp add: parse_entry_none parse_entry_standalone_none count_list_0 [THEN iffD2])
  next
    case True
    then obtain a b where ab: "line = a @ ?c # b" "?c \<notin> set a"
      by (meson split_list_first)
    have cnt: "count_list line ?c = Suc (count_list b ?c)"
      using ab count_list_0 [of a ?c] by simp
    show ?thesis
    proof (cases "?c \<in> set b")
      case False
      then have "split ?c b = [b]" by (rule split_notin)
      with ab False show ?thesis
        using parse_entry_first [OF refl ab(2), of b]
          parse_entry_standalone_first [OF refl ab(2), of b] cnt count_list_0 [of b ?c]
        by simp
    next
      case True
      then obtain p r where pr: "b = p @ ?c # r" "?c \<notin> set p"
        by (meson split_list_first)
      have "?c \<in> set (strip b)"
        using True bar_not_space by (rule mem_strip)
      moreover have "?c \<notin> set (strip p)"
        using pr(2) set_strip [of p] by blast
      ultimately have "strip b \<noteq> strip p" by metis
      moreover have "hd (split ?c b) = p"
        using pr by (simp add: split_first)
      moreover have "count_list b ?c \<noteq> 0"
        using True count_list_0 [of b ?c] by simp
      ultimately show ?thesis
        using ab parse_entry_first [OF refl ab(2), of b]
          parse_entry_standalone_first [OF refl ab(2), of b] cnt
        by simp
    qed
  qed
next
  show "safe_name song_name = safe_name_standalone song_name
        \<longleftrightarrow> length (safe_name_standalone song_name) \<le> 150"
    by (simp add: safe_name_def safe_name_standalone_def take_all_iff)
qed

theorem parse_entry_versions_witness:
  "parse_entry ''Song A - Artist X | https://x/a''
     = parse_entry_standalone ''Song A - Artist X | https://x/a''
   \<and> safe_name ''Song A - Artist X'' = safe_name_standalone ''Song A - Artist X''"
proof -
  have a: "count_list ''Song A - Artist X | https://x/a'' CHR ''|'' \<le> 1"
    by simp
  have b: "length (safe_name_standalone ''Song A - Artist X'') \<le> 150"
    by code_simp
  show ?thesis
    using parse_entry_versions [of "''Song A - Artist X | https://x/a''" "''Song A - Artist X''"] a b
    by blast
qed

text \<open>
  Claim C9, as stated, fails: a URL with a \<open>|\<close> in it is kept whole by the split at the
  first separator and cut by the split at every separator.
\<close>

theorem versions_differ:
  "parse_entry ''a | https://x/a?t=1|2'' \<noteq> parse_entry_standalone ''a | https://x/a?t=1|2''"
  by code_simp

section \<open>The resolver\<close>

lemma range3: "[0..<3] = [0, 1, 2]" "[1..<3] = [1, 2]" "[2..<3] = [2]"
  by (simp_all add: upt_rec)

text \<open>
  Claim C3. A provider that answers every search with an empty list of entries: the claim
  expects the failure \<open>No results found\<close> after one search; \<open>info['entries'][0]\<close> raises
  instead, the handler retries, and \<open>find_url\<close> returns the text of the IndexError after
  three searches. Both copies of \<open>find_url\<close> behave so.
\<close>

theorem empty_result_retried:
  "find_url True (\<lambda>attempt. Info (Entries [])) song_name
     = (NotFound song_name ''list index out of range'',
        [Jitter, Search song_name, Jitter, Search song_name, Jitter, Search song_name])
   \<and> find_url_standalone (\<lambda>attempt. Info (Entries [])) song_name
     = (NotFound song_name ''list index out of range'',
        [Jitter, Search song_name, Jitter, Search song_name, Jitter, Search song_name])"
  by (simp add: find_url_def find_url_standalone_def range3 try_body_def index_def)

lemma attempts_retry:
  assumes "try_body (provider k) song_name = Inl m"
    and "substring_in ''429'' m \<or> \<not> substring_in ''Sign in'' m" and "k \<noteq> 2"
  shows "attempts provider song_name (k # rest) tr
           = attempts provider song_name rest
               (tr @ [Jitter, Search song_name]
                   @ (if substring_in ''429'' m then [Cooldown 20] else []))"
  using assms by auto

lemma attempts_sign_in:
  assumes "try_body (provider k) song_name = Inl m"
    and "substring_in ''Sign in'' m" and "\<not> substring_in ''429'' m"
  shows "attempts provider song_name (k # rest) tr
           = (NotFound song_name ''Age restricted/Login required'',
              tr @ [Jitter, Search song_name])"
  using assms by simp

lemma attempts_rate_limited:
  assumes "try_body (provider k) song_name = Inl m" and "substring_in ''429'' m"
  shows "attempts provider song_name (k # rest) tr
           = (if k = 2 then (NotFound song_name m, tr @ [Jitter, Search song_name, Cooldown 20])
              else attempts provider song_name rest
                     (tr @ [Jitter, Search song_name, Cooldown 20]))"
  using assms by simp

text \<open>
  Attempt \<open>k\<close> is reached when every attempt before it failed and was retried; then \<open>k\<close>
  searches have been made.
\<close>

lemma find_url_reaches:
  assumes "k < 3"
    and "\<forall>j<k. \<exists>m. try_body (provider j) song_name = Inl m
                    \<and> (substring_in ''429'' m \<or> \<not> substring_in ''Sign in'' m)"
  shows "\<exists>tr. length (filter (\<lambda>x. x = Search song_name) tr) = k
              \<and> find_url True provider song_name = attempts provider song_name [k..<3] tr"
proof -
  have f: "find_url True provider song_name = attempts provider song_name [0, 1, 2] []"
    by (simp add: find_url_def range3)
  consider "k = 0" | "k = 1" | "k = 2" using assms(1) by linarith
  then show ?thesis
  proof cases
    case 1
    have "length (filter (\<lambda>x. x = Search song_name) []) = 0" by simp
    then show ?thesis unfolding f 1 range3 by (intro exI [of _ "[]"] conjI refl)
  next
    case 2
    from 2 assms(2) obtain m where m: "try_body (provider 0) song_name = Inl m"
      "substring_in ''429'' m \<or> \<not> substring_in ''Sign in'' m" by auto
    let ?tr = "[] @ [Jitter, Search song_name]
                  @ (if substring_in ''429'' m then [Cooldown 20] else [])"
    have a: "attempts provider song_name [0, 1, 2] [] = attempts provider song_name [1, 2] ?tr"
      by (rule attempts_retry [of provider 0 song_name, OF m]) simp
    have b: "length (filter (\<lambda>x. x = Search song_name) ?tr) = 1"
      by simp
    show ?thesis unfolding f 2 range3 by (intro exI [of _ ?tr] conjI a b)
  next
    case 3
    from 3 assms(2) have "\<exists>m. try_body (provider 0) song_name = Inl m
        \<and> (substring_in ''429'' m \<or> \<not> substring_in ''Sign in'' m)" by simp
    then obtain m where m: "try_body (provider 0) song_name = Inl m"
      "substring_in ''429'' m \<or> \<not> substring_in ''Sign in'' m" by blast
    from 3 assms(2) have "\<exists>m. try_body (provider 1) song_name = Inl m
        \<and> (substring_in ''429'' m \<or> \<not> substring_in ''Sign in'' m)" by simp
    then obtain m' where m': "try_body (provider 1) song_name = Inl m'"
      "substring_in ''429'' m' \<or> \<not> substring_in ''Sign in'' m'" by blast
    let ?tr = "[] @ [Jitter, Search song_name]
                  @ (if substring_in ''429'' m then [Cooldown 20] else [])"
    let ?tr' = "?tr @ [Jitter, Search song_name]
                  @ (if substring_in ''429'' m' then [Cooldown 20] else [])"
    have "attempts provider song_name [0, 1, 2] [] = attempts provider song_name [1, 2] ?tr"
      by (rule attempts_retry [of provider 0 song_name, OF m]) simp
    also have "\<dots> = attempts provider song_name [2] ?tr'"
      by (rule attempts_retry [of provider 1 song_name, OF m']) simp
    finally have a: "attempts provider song_name [0, 1, 2] []
                       = attempts provider song_name [2] ?tr'" .
    have b: "length (filter (\<lambda>x. x = Search song_name) ?tr') = 2"
      by simp
    show ?thesis unfolding f 3 range3 by (intro exI [of _ ?tr'] conjI a b)
  qed
qed

text \<open>
  Claim C6. When attempt \<open>k\<close> is reached and fails with an error text containing \<open>429\<close>,
  \<open>find_url\<close> sleeps 20 seconds; the attempt has used one of the three: after the third
  attempt the error text is returned, otherwise the loop goes on with the attempts that are
  left. In particular, when the first attempt is rate-limited and the second returns, that
  result is returned after two searches and exactly one cooldown.
\<close>

theorem rate_limit_retry:
  assumes "k < 3"
    and "\<forall>j<k. \<exists>m. try_body (provider j) song_name = Inl m
                    \<and> (substring_in ''429'' m \<or> \<not> substring_in ''Sign in'' m)"
    and "try_body (provider k) song_name = Inl msg" and "substring_in ''429'' msg"
  shows "(\<exists>tr. length (filter (\<lambda>x. x = Search song_name) tr) = k
            \<and> find_url True provider song_name
                = (if k = 2
                   then (NotFound song_name msg, tr @ [Jitter, Search song_name, Cooldown 20])
                   else attempts provider song_name [Suc k..<3]
                          (tr @ [Jitter, Search song_name, Cooldown 20])))
         \<and> (k = 0 \<longrightarrow>
              (\<forall>r. try_body (provider 1) song_name = Inr r \<longrightarrow>
                 find_url True provider song_name
                   = (r, [Jitter, Search song_name, Cooldown 20, Jitter, Search song_name])))"
proof
  obtain tr where tr: "length (filter (\<lambda>x. x = Search song_name) tr) = k"
    "find_url True provider song_name = attempts provider song_name [k..<3] tr"
    using find_url_reaches [OF assms(1,2)] by blast
  have "[k..<3] = k # [Suc k..<3]"
    using assms(1) by (rule upt_conv_Cons)
  then have "find_url True provider song_name
               = attempts provider song_name (k # [Suc k..<3]) tr"
    using tr(2) by simp
  also have "\<dots> = (if k = 2
                   then (NotFound song_name msg, tr @ [Jitter, Search song_name, Cooldown 20])
                   else attempts provider song_name [Suc k..<3]
                          (tr @ [Jitter, Search song_name, Cooldown 20]))"
    by (rule attempts_rate_limited [of provider k song_name, OF assms(3,4)])
  finally show "\<exists>tr. length (filter (\<lambda>x. x = Search song_name) tr) = k
            \<and> find_url True provider song_name
                = (if k = 2
                   then (NotFound song_name msg, tr @ [Jitter, Search song_name, Cooldown 20])
                   else attempts provider song_name [Suc k..<3]
                          (tr @ [Jitter, Search song_name, Cooldown 20]))"
    using tr(1) by blast
next
  show "k = 0 \<longrightarrow>
              (\<forall>r. try_body (provider 1) song_name = Inr r \<longrightarrow>
                 find_url True provider song_name
                   = (r, [Jitter, Search song_name, Cooldown 20, Jitter, Search song_name]))"
  proof (intro impI allI)
    fix r
    assume "k = 0" and "try_body (provider 1) song_name = Inr r"
    with assms(3,4) show "find_url True provider song_name
                   = (r, [Jitter, Search song_name, Cooldown 20, Jitter, Search song_name])"
      by (simp add: find_url_def range3)
  qed
qed

theorem rate_limit_retry_witness:
  "find_url True provider_rate_limited_once ''Song A - Artist X''
     = (Found ''Song A - Artist X'' ''https://x/a'' ''A'',
        [Jitter, Search ''Song A - Artist X'', Cooldown 20, Jitter, Search ''Song A - Artist X''])"
proof -
  have k: "(0::nat) < 3" by simp
  have r: "\<forall>j<(0::nat). \<exists>m. try_body (provider_rate_limited_once j) ''Song A - Artist X'' = Inl m
                    \<and> (substring_in ''429'' m \<or> \<not> substring_in ''Sign in'' m)"
    by simp
  have a: "try_body (provider_rate_limited_once 0) ''Song A - Artist X''
             = Inl ''HTTP Error 429: Too Many Requests''"
    by (simp add: provider_rate_limited_once_def try_body_def)
  have b: "substring_in ''429'' ''HTTP Error 429: Too Many Requests''"
    by simp
  have c: "try_body (provider_rate_limited_once 1) ''Song A - Artist X''
             = Inr (Found ''Song A - Artist X'' ''https://x/a'' ''A'')"
    by (simp add: provider_rate_limited_once_def try_body_def index_def py_or_def truthy_def)
  show ?thesis
    using rate_limit_retry [of 0 provider_rate_limited_once "''Song A - Artist X''", OF k r a b] c
    by blast
qed

text \<open>
  Claim C7, as stated, fails: the test for \<open>429\<close> comes first, so an error text with both
  markers (here the video identifier contains 429) is handled as a rate limit and the search
  is tried again.
\<close>

theorem sign_in_after_rate_limit_marker:
  "substring_in ''Sign in'' ''[youtube] a429bcdefgh: Sign in to confirm your age''
   \<and> find_url True
       (\<lambda>attempt. if attempt = 0 then Raise ''[youtube] a429bcdefgh: Sign in to confirm your age''
                   else Info (Single \<lparr>v_webpage_url = Some ''https://x/a'', v_url = None,
                                       v_title = Some ''A''\<rparr>))
       ''Song A''
     = (Found ''Song A'' ''https://x/a'' ''A'',
        [Jitter, Search ''Song A'', Cooldown 20, Jitter, Search ''Song A''])"
  by (simp add: find_url_def range3 try_body_def py_or_def truthy_def)

text \<open>
  Claim C7, as the code has it. When attempt \<open>k\<close> is reached (the attempts before it failed
  and were retried) and fails with an error text that contains \<open>Sign in\<close> and not \<open>429\<close>,
  \<open>find_url\<close> returns the failure \<open>Age restricted/Login required\<close>; attempt \<open>k\<close> was the last
  search, and nothing follows it.
\<close>

theorem sign_in_fails_at_once:
  assumes "k < 3"
    and "try_body (provider k) song_name = Inl msg"
    and "substring_in ''Sign in'' msg" and "\<not> substring_in ''429'' msg"
    and "\<forall>j<k. \<exists>m. try_body (provider j) song_name = Inl m
                    \<and> (substring_in ''429'' m \<or> \<not> substring_in ''Sign in'' m)"
  shows "fst (find_url True provider song_name)
           = NotFound song_name ''Age restricted/Login required''
         \<and> length (filter (\<lambda>x. x = Search song_name) (snd (find_url True provider song_name)))
           = Suc k
         \<and> last (snd (find_url True provider song_name)) = Search song_name"
proof -
  obtain tr where tr: "length (filter (\<lambda>x. x = Search song_name) tr) = k"
    "find_url True provider song_name = attempts provider song_name [k..<3] tr"
    using find_url_reaches [OF assms(1,5)] by blast
  have "[k..<3] = k # [Suc k..<3]"
    using assms(1) by (rule upt_conv_Cons)
  then have "find_url True provider song_name
               = attempts provider song_name (k # [Suc k..<3]) tr"
    using tr(2) by simp
  also have "\<dots> = (NotFound song_name ''Age restricted/Login required'',
                      tr @ [Jitter, Search song_name])"
    by (rule attempts_sign_in [of provider k song_name, OF assms(2-4)])
  finally show ?thesis
    using tr(1) by simp
qed

theorem sign_in_fails_at_once_witness:
  "fst (find_url True provider_login_required ''Song B'') = NotFound ''Song B'' ''Age restricted/Login required''
   \<and> length (filter (\<lambda>x. x = Search ''Song B'') (snd (find_url True provider_login_required ''Song B''))) = 2
   \<and> last (snd (find_url True provider_login_required ''Song B'')) = Search ''Song B''"
proof -
  have a: "(1::nat) < 3" by simp
  have b: "try_body (provider_login_required 1) ''Song B'' = Inl ''Sign in to confirm your age''"
    by (simp add: provider_login_required_def try_body_def)
  have c: "substring_in ''Sign in'' ''Sign in to confirm your age''" by simp
  have d: "\<not> substring_in ''429'' ''Sign in to confirm your age''" by simp
  have e: "\<forall>j<1. \<exists>m. try_body (provider_login_required j) ''Song B'' = Inl m
                    \<and> (substring_in ''429'' m \<or> \<not> substring_in ''Sign in'' m)"
    by (simp add: provider_login_required_def try_body_def)
  show ?thesis
    using sign_in_fails_at_once [of 1 provider_login_required "''Song B''", OF a b c d e] by simp
qed

section \<open>The resolution coordinator\<close>




text \<open>
  Every submission makes a future with a new number, so no key of the dictionary is replaced
  and the futures are those of the songs, in order.
\<close>

lemma update_fresh: "k \<notin> fst ` set al \<Longrightarrow> AList.update k v al = al @ [(k, v)]"
  by (induction al) auto

lemma submit_all_eq:
  assumes "\<forall>f \<in> fst ` set d. fid f < length (submitted ex)"
  shows "submit_all installed provider songs (ex, d)
           = (ex\<lparr>submitted := submitted ex @ songs\<rparr>,
              d @ map (\<lambda>(i, s). (Future i (fst (find_url installed (provider i) s)), s))
                    (enumerate (length (submitted ex)) songs))"
  using assms
proof (induction songs arbitrary: ex d)
  case Nil
  then show ?case by simp
next
  case (Cons s songs)
  let ?n = "length (submitted ex)"
  let ?f = "Future ?n (fst (find_url installed (provider ?n) s))"
  let ?ex = "ex\<lparr>submitted := submitted ex @ [s]\<rparr>"
  have fresh: "?f \<notin> fst ` set d"
    using Cons.prems by force
  have inv: "\<forall>f \<in> fst ` set (d @ [(?f, s)]). fid f < length (submitted ?ex)"
    using Cons.prems by force
  have "submit_all installed provider (s # songs) (ex, d)
          = submit_all installed provider songs (?ex, d @ [(?f, s)])"
    by (simp add: submit_def Let_def update_fresh [OF fresh])
  also note Cons.IH [OF inv]
  finally show ?case by simp
qed

lemma submit_all_start:
  "submit_all installed provider songs (\<lparr>submitted = []\<rparr>, [])
     = (\<lparr>submitted = songs\<rparr>,
        map (\<lambda>(i, s). (Future i (fst (find_url installed (provider i) s)), s))
          (enumerate 0 songs))"
  using submit_all_eq [of "[]" "\<lparr>submitted = []\<rparr>" installed provider songs] by simp









text \<open>
  Claim C4, as the code has it. Every line of the input is submitted exactly once, in the
  order of the input, each with a future of its own: the arguments submitted are the list
  of songs itself, so a name that occurs several times is submitted as many times.
\<close>

theorem submit_every_line:
  "submitted (fst (submit_all installed provider songs (\<lparr>submitted = []\<rparr>, []))) = songs
   \<and> map snd (snd (submit_all installed provider songs (\<lparr>submitted = []\<rparr>, []))) = songs
   \<and> map (fid \<circ> fst) (snd (submit_all installed provider songs (\<lparr>submitted = []\<rparr>, [])))
       = [0..<length songs]"
proof -
  have "map (fid \<circ> fst) (map (\<lambda>(i, s). (Future i (fst (find_url installed (provider i) s)), s))
          (enumerate 0 songs)) = map fst (enumerate 0 songs)"
    by (simp add: comp_def case_prod_beta)
  moreover have "map snd (map (\<lambda>(i, s). (Future i (fst (find_url installed (provider i) s)), s))
          (enumerate 0 songs)) = map snd (enumerate 0 songs)"
    by (simp add: comp_def case_prod_beta)
  ultimately show ?thesis
    by (simp add: submit_all_start del: map_map)
qed

text \<open>
  Claim C4, as stated, fails: a name that is twice in the input is submitted twice, not once.
\<close>

theorem duplicate_submitted_twice:
  "count_list (submitted (fst (submit_all True provider_no_hits
      [''Song A - Artist X'', ''Song A - Artist X''] (\<lparr>submitted = []\<rparr>, []))))
     ''Song A - Artist X'' = 2"
  by (simp add: submit_def)

section \<open>The acquirer and its coordinator\<close>

lemma download_track_no_separator:
  "CHR ''|'' \<notin> set line \<Longrightarrow> download_track fetch line output_folder e = (Inr False, e)"
  by (simp add: download_track_def)

lemma download_track_skip:
  assumes "yt_dlp_installed e" and "parse_entry line = Inr (song_name, url)"
    and "path_exists e (path_join output_folder (safe_name song_name) @ ''.mp3'')"
  shows "download_track fetch line output_folder e
           = (Inr True, print (Skip (safe_name song_name)) e)"
proof -
  have "CHR ''|'' \<in> set line"
    using assms(2) parse_entry_none [of line] by auto
  then show ?thesis
    using assms by (simp add: download_track_def Let_def)
qed

lemma download_track_returns:
  "\<exists>ok. fst (download_track fetch line output_folder e) = Inr ok"
proof (cases "CHR ''|'' \<in> set line")
  case False
  then have "fst (download_track fetch line output_folder e) = Inr False"
    by (simp add: download_track_no_separator)
  then show ?thesis by blast
next
  case True
  then obtain n u where "parse_entry line = Inr (n, u)"
    using parse_entry_some by blast
  then show ?thesis
    by (auto simp: download_track_def Let_def split: sum.splits)
qed

lemma download_loop_append:
  "download_loop fetch (xs @ ys) output_folder c e
     = (case download_loop fetch xs output_folder c e of
          (Inl x, e') \<Rightarrow> (Inl x, e')
        | (Inr c', e') \<Rightarrow> download_loop fetch ys output_folder c' e')"
  by (induction xs arbitrary: c e) (auto split: prod.splits sum.splits)

lemma download_loop_returns:
  "\<exists>n e'. download_loop fetch lines output_folder c e = (Inr n, e')
           \<and> c \<le> n \<and> n \<le> c + length lines"
proof (induction lines arbitrary: c e)
  case Nil
  then show ?case by simp
next
  case (Cons line lines)
  obtain ok e1 where step: "download_track fetch line output_folder e = (Inr ok, e1)"
    using download_track_returns [of fetch line output_folder e]
    by (cases "download_track fetch line output_folder e") auto
  obtain n e' where
    "download_loop fetch lines output_folder (if ok then c + 1 else c) e1 = (Inr n, e')"
    "(if ok then c + 1 else c) \<le> n" "n \<le> (if ok then c + 1 else c) + length lines"
    using Cons.IH by blast
  with step show ?case
    by (auto split: if_splits)
qed

lemma already_downloaded_print:
  "already_downloaded (print ev e) output_folder line = already_downloaded e output_folder line"
  by (auto simp: already_downloaded_def path_exists_def print_def split: sum.splits)

lemma download_loop_skip:
  assumes "yt_dlp_installed e"
    and "\<forall>line \<in> set lines. already_downloaded e output_folder line"
  shows "\<exists>names. length names = length lines
           \<and> download_loop fetch lines output_folder c e
               = (Inr (c + length lines), e\<lparr>stdout := stdout e @ map Skip names\<rparr>)"
  using assms
proof (induction lines arbitrary: c e)
  case Nil
  then show ?case by simp
next
  case (Cons line lines)
  from Cons.prems(2) obtain song_name url where p: "parse_entry line = Inr (song_name, url)"
    and x: "path_exists e (path_join output_folder (safe_name song_name) @ ''.mp3'')"
    by (auto simp: already_downloaded_def split: sum.splits)
  let ?e1 = "print (Skip (safe_name song_name)) e"
  have step: "download_track fetch line output_folder e = (Inr True, ?e1)"
    using download_track_skip [OF Cons.prems(1) p x] .
  have i: "yt_dlp_installed ?e1"
    using Cons.prems(1) by (simp add: print_def)
  have a: "\<forall>line \<in> set lines. already_downloaded ?e1 output_folder line"
    using Cons.prems(2) by (simp add: already_downloaded_print)
  obtain names where n: "length names = length lines"
    and l: "download_loop fetch lines output_folder (c + 1) ?e1
              = (Inr (c + 1 + length lines), ?e1\<lparr>stdout := stdout ?e1 @ map Skip names\<rparr>)"
    using Cons.IH [OF i a, of "c + 1"] by blast
  have "download_loop fetch (line # lines) output_folder c e
          = (Inr (c + length (line # lines)),
             e\<lparr>stdout := stdout e @ map Skip (safe_name song_name # names)\<rparr>)"
    using step l by (simp add: print_def)
  moreover have "length (safe_name song_name # names) = length (line # lines)"
    using n by simp
  ultimately show ?case by blast
qed

lemma create_missing_keeps: "f p \<noteq> None \<Longrightarrow> create_missing as f p = f p"
  by (induction as arbitrary: f) auto

text \<open>
  When the output folder is there or can be created, the step of lines 298 to 300 succeeds
  and changes nothing that existed.
\<close>

lemma folder_prepared:
  assumes "folder_ready e output_folder"
  shows "\<exists>e1. (if \<not> path_exists e output_folder then makedirs output_folder e else Inr e)
                 = Inr e1
              \<and> yt_dlp_installed e1 = yt_dlp_installed e
              \<and> requests e1 = requests e \<and> stdout e1 = stdout e
              \<and> (\<forall>p. path_exists e p \<longrightarrow> files e1 p = files e p)"
proof (cases "path_exists e output_folder")
  case True
  then show ?thesis by simp
next
  case False
  with assms have nf: "\<not> makedirs_fails e output_folder"
    by (simp add: folder_ready_def)
  let ?e1 = "e\<lparr>files := (create_missing (ancestors output_folder) (files e))
                             (output_folder \<mapsto> Dir)\<rparr>"
  have m: "(if \<not> path_exists e output_folder then makedirs output_folder e else Inr e)
             = Inr ?e1"
    using nf False by (simp add: makedirs_def)
  have k: "\<forall>p. path_exists e p \<longrightarrow> files ?e1 p = files e p"
    using False by (auto simp: path_exists_def create_missing_keeps)
  have "yt_dlp_installed ?e1 = yt_dlp_installed e" "requests ?e1 = requests e"
    "stdout ?e1 = stdout e"
    by simp_all
  with m k show ?thesis by blast
qed

lemma folder_ready_files:
  assumes "files e0 = files e" and "mkdir_denied e0 = mkdir_denied e"
  shows "folder_ready e0 output_folder = folder_ready e output_folder"
proof -
  have "is_file e0 = is_file e"
    using assms(1) by (intro ext) (simp add: is_file_def)
  then show ?thesis
    using assms by (simp add: folder_ready_def makedirs_fails_def path_exists_def)
qed

lemma download_entries_skip:
  assumes "yt_dlp_installed e" and "files e input_file = Some (File content)"
    and "\<forall>line \<in> set (read_entries content). already_downloaded e output_folder line"
    and "folder_ready e output_folder"
  shows "\<exists>e' names. download_entries fetch input_file output_folder e
             = (Inr (length (read_entries content), length (read_entries content)), e')
           \<and> requests e' = requests e
           \<and> (\<forall>p. path_exists e p \<longrightarrow> files e' p = files e p)
           \<and> stdout e' = stdout e @ map Skip names
           \<and> length names = length (read_entries content)"
proof -
  obtain e1 where e1:
    "(if \<not> path_exists e output_folder then makedirs output_folder e else Inr e) = Inr e1"
    "yt_dlp_installed e1 = yt_dlp_installed e" "requests e1 = requests e"
    "stdout e1 = stdout e" "\<forall>p. path_exists e p \<longrightarrow> files e1 p = files e p"
    using folder_prepared [OF assms(4)] by blast
  have ex: "path_exists e input_file"
    using assms(2) by (simp add: path_exists_def)
  have f1: "files e1 input_file = Some (File content)"
    using assms(2) ex e1(5) by simp
  have i1: "yt_dlp_installed e1"
    using assms(1) e1(2) by simp
  have a1: "\<forall>line \<in> set (read_entries content). already_downloaded e1 output_folder line"
    using assms(3) e1(5)
    by (auto simp: already_downloaded_def path_exists_def split: sum.splits)
  obtain names where n: "length names = length (read_entries content)"
    and l: "download_loop fetch (read_entries content) output_folder 0 e1
              = (Inr (0 + length (read_entries content)), e1\<lparr>stdout := stdout e1 @ map Skip names\<rparr>)"
    using download_loop_skip [OF i1 a1, of fetch 0] by blast
  let ?e' = "e1\<lparr>stdout := stdout e1 @ map Skip names\<rparr>"
  have "download_entries fetch input_file output_folder e
          = (Inr (length (read_entries content), length (read_entries content)), ?e')"
    using ex f1 l unfolding download_entries_def e1(1) by (simp add: Let_def)
  moreover have "requests ?e' = requests e" "stdout ?e' = stdout e @ map Skip names"
    using e1(3,4) by simp_all
  moreover have "\<forall>p. path_exists e p \<longrightarrow> files ?e' p = files e p"
    using e1(5) by simp
  ultimately show ?thesis using n by blast
qed

lemma download_entries_returns:
  assumes "files e input_file = Some (File content)"
    and "read_entries content = xs @ bad # ys" and "CHR ''|'' \<notin> set bad"
    and "folder_ready e output_folder"
  shows "\<exists>n e'. download_entries fetch input_file output_folder e
             = (Inr (n, length xs + 1 + length ys), e')
           \<and> n \<le> length xs + length ys"
proof -
  obtain e1 where e1:
    "(if \<not> path_exists e output_folder then makedirs output_folder e else Inr e) = Inr e1"
    "\<forall>p. path_exists e p \<longrightarrow> files e1 p = files e p"
    using folder_prepared [OF assms(4)] by blast
  have ex: "path_exists e input_file"
    using assms(1) by (simp add: path_exists_def)
  have f1: "files e1 input_file = Some (File content)"
    using assms(1) ex e1(2) by simp
  obtain c1 e2 where l1: "download_loop fetch xs output_folder 0 e1 = (Inr c1, e2)"
    and b1: "c1 \<le> 0 + length xs"
    using download_loop_returns [of fetch xs output_folder 0 e1] by blast
  obtain n e' where l2: "download_loop fetch ys output_folder c1 e2 = (Inr n, e')"
    and b2: "n \<le> c1 + length ys"
    using download_loop_returns [of fetch ys output_folder c1 e2] by blast
  have "download_loop fetch (xs @ bad # ys) output_folder 0 e1 = (Inr n, e')"
    using l1 l2 download_track_no_separator [OF assms(3)]
    by (simp add: download_loop_append)
  then have "download_entries fetch input_file output_folder e
          = (Inr (n, length xs + 1 + length ys), e')"
    using ex f1 assms(2) unfolding download_entries_def e1(1)
    by (simp add: Let_def)
  then show ?thesis using b1 b2 by auto
qed

text \<open>
  The error path of lines 298 and 299: with an empty output folder, or one below a regular
  file, \<open>os.makedirs\<close> raises and no line is read, although the track is in the working
  directory or the found file is well-formed.
\<close>

lemma makedirs_failure_aborts:
  "download_songs fetch_offline ''found_songs.txt'' [] env_downloaded
     = (Inl OSError, env_downloaded)"
  "download_songs fetch_offline ''found_songs.txt'' ''found_songs.txt/b'' env_downloaded
     = (Inl OSError, env_downloaded)"
  by (simp_all add: download_songs_def download_entries_def makedirs_def makedirs_fails_def
      path_exists_def env_downloaded_def ancestors_def is_file_def upt_rec)

lemma download_songs_ready:
  assumes "tools_ready e"
  shows "\<exists>e0. download_songs fetch input_file output_folder e
                 = download_entries fetch input_file output_folder e0
              \<and> yt_dlp_installed e0 \<and> files e0 = files e
              \<and> mkdir_denied e0 = mkdir_denied e
              \<and> requests e0 = requests e \<and> stdout e0 = stdout e"
proof (cases "ffmpeg_found e")
  case True
  then have "download_songs fetch input_file output_folder e
               = download_entries fetch input_file output_folder e"
    using assms by (simp add: download_songs_def tools_ready_def)
  then show ?thesis using assms by (auto simp: tools_ready_def)
next
  case False
  then obtain answer rest where s: "stdin e = answer # rest" "lower (strip answer) = ''y''"
    using assms by (auto simp: tools_ready_def split: list.splits)
  have "download_songs fetch input_file output_folder e
               = download_entries fetch input_file output_folder (e\<lparr>stdin := rest\<rparr>)"
    using assms False s by (simp add: download_songs_def tools_ready_def Let_def)
  moreover have "yt_dlp_installed (e\<lparr>stdin := rest\<rparr>)"
    using assms by (simp add: tools_ready_def)
  ultimately show ?thesis by force
qed

text \<open>
  Claim C2. With yt\_dlp importable, \<open>download_track\<close> on an entry whose file is already in
  the output folder returns \<open>True\<close>, prints the skip, requests nothing from the network and
  leaves the file system as it is. So \<open>download_songs\<close>, once past the checks of the tools and
  with the output folder there (or created without error), on a found file whose tracks are
  all there reports every entry as a success, prints one skip per entry, requests nothing
  and changes no existing path.
\<close>

theorem skip_existing:
  "(yt_dlp_installed e \<and> already_downloaded e output_folder line \<longrightarrow>
      (case download_track fetch line output_folder e of
         (r, e') \<Rightarrow> r = Inr True \<and> requests e' = requests e \<and> files e' = files e
                    \<and> (\<exists>safe. stdout e' = stdout e @ [Skip safe])))
   \<and> (tools_ready e \<and> files e input_file = Some (File content)
        \<and> folder_ready e output_folder
        \<and> (\<forall>l \<in> set (read_entries content). already_downloaded e output_folder l) \<longrightarrow>
      (case download_songs fetch input_file output_folder e of
         (r, e') \<Rightarrow> r = Inr (length (read_entries content), length (read_entries content))
                    \<and> requests e' = requests e
                    \<and> (\<forall>p. path_exists e p \<longrightarrow> files e' p = files e p)
                    \<and> (\<exists>names. length names = length (read_entries content)
                                 \<and> stdout e' = stdout e @ map Skip names)))"
proof (intro conjI impI)
  assume a: "yt_dlp_installed e \<and> already_downloaded e output_folder line"
  then obtain song_name url where p: "parse_entry line = Inr (song_name, url)"
    and x: "path_exists e (path_join output_folder (safe_name song_name) @ ''.mp3'')"
    by (auto simp: already_downloaded_def split: sum.splits)
  have "download_track fetch line output_folder e
          = (Inr True, print (Skip (safe_name song_name)) e)"
    using a p x by (simp add: download_track_skip)
  then show "case download_track fetch line output_folder e of
         (r, e') \<Rightarrow> r = Inr True \<and> requests e' = requests e \<and> files e' = files e
                    \<and> (\<exists>safe. stdout e' = stdout e @ [Skip safe])"
    by (simp add: print_def)
next
  assume a: "tools_ready e \<and> files e input_file = Some (File content)
        \<and> folder_ready e output_folder
        \<and> (\<forall>l \<in> set (read_entries content). already_downloaded e output_folder l)"
  then obtain e0 where e0: "download_songs fetch input_file output_folder e
                 = download_entries fetch input_file output_folder e0"
    "yt_dlp_installed e0" "files e0 = files e" "requests e0 = requests e" "stdout e0 = stdout e"
    "mkdir_denied e0 = mkdir_denied e"
    using download_songs_ready [of e fetch input_file output_folder] by blast
  have g: "folder_ready e0 output_folder"
    using a folder_ready_files [OF e0(3) e0(6)] by simp
  have f: "files e0 input_file = Some (File content)"
    using a e0(3) by simp
  have d: "\<forall>l \<in> set (read_entries content). already_downloaded e0 output_folder l"
    using a e0(3) by (auto simp: already_downloaded_def path_exists_def split: sum.splits)
  obtain e' names where r: "download_entries fetch input_file output_folder e0
             = (Inr (length (read_entries content), length (read_entries content)), e')"
    "requests e' = requests e0" "\<forall>p. path_exists e0 p \<longrightarrow> files e' p = files e0 p"
    "stdout e' = stdout e0 @ map Skip names" "length names = length (read_entries content)"
    using download_entries_skip [OF e0(2) f d g, of fetch] by blast
  have "\<forall>p. path_exists e p \<longrightarrow> files e' p = files e p"
    using r(3) e0(3) by (simp add: path_exists_def)
  then show "case download_songs fetch input_file output_folder e of
         (r, e') \<Rightarrow> r = Inr (length (read_entries content), length (read_entries content))
                    \<and> requests e' = requests e
                    \<and> (\<forall>p. path_exists e p \<longrightarrow> files e' p = files e p)
                    \<and> (\<exists>names. length names = length (read_entries content)
                                 \<and> stdout e' = stdout e @ map Skip names)"
    using e0 r by auto
qed

lemma example_entry:
  "parse_entry ''Song A - Artist X | https://x/a'' = Inr (''Song A - Artist X'', ''https://x/a'')"
  "safe_name ''Song A - Artist X'' = ''Song A - Artist X''"
  "read_entries ''Song A - Artist X | https://x/a'' = [''Song A - Artist X | https://x/a'']"
  by code_simp+

theorem skip_existing_witness:
  "download_track fetch_offline ''Song A - Artist X | https://x/a'' ''songs'' env_downloaded
     = (Inr True, env_downloaded\<lparr>stdout := [Skip ''Song A - Artist X'']\<rparr>)
   \<and> fst (download_songs fetch_offline ''found_songs.txt'' ''songs'' env_downloaded) = Inr (1, 1)
   \<and> requests (snd (download_songs fetch_offline ''found_songs.txt'' ''songs'' env_downloaded)) = []"
proof -
  have a: "yt_dlp_installed env_downloaded" "tools_ready env_downloaded"
    by (simp_all add: env_downloaded_def tools_ready_def)
  have b: "already_downloaded env_downloaded ''songs'' ''Song A - Artist X | https://x/a''"
    by (simp add: already_downloaded_def example_entry path_join_def path_exists_def
        env_downloaded_def)
  have c: "files env_downloaded ''found_songs.txt''
             = Some (File ''Song A - Artist X | https://x/a'')"
    by (simp add: env_downloaded_def)
  have d: "\<forall>l \<in> set (read_entries ''Song A - Artist X | https://x/a'').
             already_downloaded env_downloaded ''songs'' l"
    using b by (simp add: example_entry)
  have e: "stdout env_downloaded = []" "requests env_downloaded = []"
    by (simp_all add: env_downloaded_def)
  have g: "folder_ready env_downloaded ''songs''"
    by (simp add: folder_ready_def path_exists_def env_downloaded_def)
  have f: "download_track fetch_offline ''Song A - Artist X | https://x/a'' ''songs'' env_downloaded
     = (Inr True, env_downloaded\<lparr>stdout := [Skip ''Song A - Artist X'']\<rparr>)"
    using a(1) b
    by (simp add: download_track_def example_entry path_join_def already_downloaded_def
        print_def e)
  show ?thesis
    using skip_existing [of env_downloaded "''songs''" "''Song A - Artist X | https://x/a''"
        fetch_offline "''found_songs.txt''" "''Song A - Artist X | https://x/a''"]
      a b c d e f g
    by (auto simp: example_entry split: prod.splits)
qed

text \<open>
  Claim C8. On a line without \<open>|\<close>, \<open>download_track\<close> returns \<open>False\<close> and changes nothing;
  it does not raise. The loop of \<open>download_songs\<close> treats the other entries, in order, as if
  the line were not there, and \<open>download_songs\<close>, once it has reached the loop (the tools
  are there, the output folder is there or created without error), runs to its end: the
  line is counted in the total and not among the successes.
\<close>

theorem malformed_line_fails:
  assumes "CHR ''|'' \<notin> set bad"
  shows "download_track fetch bad output_folder e = (Inr False, e)
         \<and> download_loop fetch (xs @ bad # ys) output_folder c e
             = download_loop fetch (xs @ ys) output_folder c e
         \<and> (tools_ready e \<and> files e input_file = Some (File content)
              \<and> folder_ready e output_folder
              \<and> read_entries content = xs @ bad # ys \<longrightarrow>
            (\<exists>n e'. download_songs fetch input_file output_folder e
                       = (Inr (n, length xs + 1 + length ys), e')
                     \<and> n \<le> length xs + length ys))"
proof (intro conjI impI)
  show "download_track fetch bad output_folder e = (Inr False, e)"
    using assms by (rule download_track_no_separator)
  show "download_loop fetch (xs @ bad # ys) output_folder c e
             = download_loop fetch (xs @ ys) output_folder c e"
    using download_track_no_separator [OF assms]
    by (simp add: download_loop_append split: prod.splits sum.splits)
next
  assume a: "tools_ready e \<and> files e input_file = Some (File content)
              \<and> folder_ready e output_folder
              \<and> read_entries content = xs @ bad # ys"
  then obtain e0 where e0: "download_songs fetch input_file output_folder e
                 = download_entries fetch input_file output_folder e0"
    "files e0 = files e" "mkdir_denied e0 = mkdir_denied e"
    using download_songs_ready [of e fetch input_file output_folder] by blast
  have g: "folder_ready e0 output_folder"
    using a folder_ready_files [OF e0(2) e0(3)] by simp
  have f: "files e0 input_file = Some (File content)"
    using a e0(2) by simp
  show "\<exists>n e'. download_songs fetch input_file output_folder e
                       = (Inr (n, length xs + 1 + length ys), e')
                     \<and> n \<le> length xs + length ys"
    unfolding e0(1) using download_entries_returns [OF f _ assms g] a by blast
qed

theorem malformed_line_fails_witness:
  "download_track fetch_online ''Song B https://x/b'' ''songs'' env_malformed
     = (Inr False, env_malformed)
   \<and> (\<exists>n e'. download_songs fetch_online ''found_songs.txt'' ''songs'' env_malformed
                = (Inr (n, 3), e') \<and> n \<le> 2)
   \<and> fst (download_songs fetch_online ''found_songs.txt'' ''songs'' env_malformed) = Inr (2, 3)
   \<and> requests (snd (download_songs fetch_online ''found_songs.txt'' ''songs'' env_malformed))
       = [''https://x/a'', ''https://x/c'']"
proof -
  let ?content = "''Song A | https://x/a'' @ [CHR 0x0A] @ ''Song B https://x/b''
                       @ [CHR 0x0A] @ ''Song C | https://x/c''"
  have a: "CHR ''|'' \<notin> set ''Song B https://x/b''"
    by simp
  have t: "tools_ready env_malformed"
    by (simp add: env_malformed_def tools_ready_def)
  have f: "files env_malformed ''found_songs.txt'' = Some (File ?content)"
    by (simp add: env_malformed_def)
  have g: "folder_ready env_malformed ''songs''"
    by (simp add: folder_ready_def makedirs_fails_def path_exists_def env_malformed_def
        ancestors_def upt_rec)
  have r: "read_entries ?content
             = [''Song A | https://x/a''] @ ''Song B https://x/b'' # [''Song C | https://x/c'']"
    by code_simp
  have b: "fst (download_songs fetch_online ''found_songs.txt'' ''songs'' env_malformed)
             = Inr (2, 3)"
    by code_simp
  have c: "requests (snd (download_songs fetch_online ''found_songs.txt'' ''songs'' env_malformed))
       = [''https://x/a'', ''https://x/c'']"
    by code_simp
  have "download_track fetch_online ''Song B https://x/b'' ''songs'' env_malformed
          = (Inr False, env_malformed)
        \<and> (\<exists>n e'. download_songs fetch_online ''found_songs.txt'' ''songs'' env_malformed
                = (Inr (n, 3), e') \<and> n \<le> 2)"
    using malformed_line_fails [OF a, of fetch_online "''songs''" env_malformed
        "[''Song A | https://x/a'']" "[''Song C | https://x/c'']" 0 "''found_songs.txt''" ?content]
      t f g r
    by (simp add: numeral_3_eq_3 numeral_2_eq_2)
  with b c show ?thesis by simp
qed

end
